theory Spec2Isabelle
  imports Main "HOL-Library.Word" "HOL-Library.Sublist" "HOL-Library.Multiset"
begin

section \<open>JavaScript strings\<close>

text \<open>
  A JavaScript string is a sequence of UTF-16 code units; \<open>length\<close>, \<open>substring\<close>,
  \<open>split\<close>, \<open>trim\<close> and \<open>includes\<close> all count and compare code units. Literals of the
  source are ASCII and are written through \<open>js\<close>.
\<close>

type_synonym jschar = "16 word"
type_synonym jsstring = "jschar list"

definition js :: "string \<Rightarrow> jsstring" where
  "js s = map (\<lambda>c. of_nat (of_char c)) s"

text \<open>\<open>String.prototype.substring(0, n)\<close> for a non-negative \<open>n\<close>.\<close>

definition substring0 :: "jsstring \<Rightarrow> nat \<Rightarrow> jsstring" where
  "substring0 s n = take n s"

text \<open>\<open>String.prototype.includes\<close>: the needle occurs as a contiguous run of code units.\<close>

primrec includes_js :: "'a list \<Rightarrow> 'a list \<Rightarrow> bool" where
  "includes_js [] needle = (needle = [])"
| "includes_js (c # cs) needle = (prefix needle (c # cs) \<or> includes_js cs needle)"

text \<open>
  \<open>String.prototype.toLowerCase\<close> is a built-in of the JavaScript runtime (the Unicode
  lower-case mapping), not code of this repository: the functions that call it take it as
  the parameter \<open>toLowerCase\<close>. \<open>asciiLower\<close> is its restriction to ASCII letters, used
  to evaluate the definitions on concrete ASCII inputs.
\<close>

definition asciiLower :: "jsstring \<Rightarrow> jsstring" where
  "asciiLower s = map (\<lambda>c. if 0x41 \<le> c \<and> c \<le> 0x5A then c + 0x20 else c) s"

text \<open>
  The code units that \<open>String.prototype.trim\<close> strips: ECMAScript WhiteSpace
  (TAB, VT, FF, SP, NBSP, ZWNBSP and the Unicode space separators) and LineTerminator
  (LF, CR, LS, PS).
\<close>

definition isWhiteSpace :: "jschar \<Rightarrow> bool" where
  "isWhiteSpace c \<longleftrightarrow>
     c = 0x09 \<or> c = 0x0A \<or> c = 0x0B \<or> c = 0x0C \<or> c = 0x0D \<or> c = 0x20 \<or> c = 0xA0 \<or>
     c = 0x1680 \<or> (0x2000 \<le> c \<and> c \<le> 0x200A) \<or> c = 0x2028 \<or> c = 0x2029 \<or>
     c = 0x202F \<or> c = 0x205F \<or> c = 0x3000 \<or> c = 0xFEFF"

definition trim :: "jsstring \<Rightarrow> jsstring" where
  "trim s = rev (dropWhile isWhiteSpace (rev (dropWhile isWhiteSpace s)))"

text \<open>
  \<open>String.prototype.split(sep)\<close> for a one-unit separator: the segments between the
  separators, so the empty string splits into one empty segment.
\<close>

primrec split :: "'a \<Rightarrow> 'a list \<Rightarrow> 'a list list" where
  "split sep [] = [[]]"
| "split sep (c # cs) =
     (if c = sep then [] # split sep cs
      else (case split sep cs of
              seg # segs \<Rightarrow> (c # seg) # segs
            | [] \<Rightarrow> [[c]]))"

section \<open>Bookmarks and the grid's state\<close>

text \<open>
  The \<open>Bookmark\<close> interface of \<open>BookmarkGrid.tsx\<close>. A row as the store returns it has
  the same fields, but its \<open>position\<close> may be null; the record is polymorphic in the
  type of \<open>position\<close> so that both are the same shape.
\<close>

record 'p row =
  id_of :: jsstring
  url :: jsstring
  title :: jsstring
  favicon_url :: "jsstring option"
  summary :: "jsstring option"
  tags :: "jsstring list"
  created_at :: jsstring
  position :: 'p

type_synonym Bookmark = "int row"
type_synonym StoredRow = "int option row"

text \<open>The non-fatal notifications (\<open>toast\<close>) the component raises.\<close>

datatype variant = Default | Destructive

record Toast =
  toast_title :: jsstring
  description :: jsstring
  variant :: variant

text \<open>The error object of a failed store call; only its \<open>message\<close> is read.\<close>

record StoreError =
  message :: jsstring

text \<open>
  An awaited promise either resolves with a value or rejects, which throws at the
  \<open>await\<close>. The Supabase query builders resolve with an object holding \<open>data\<close> and
  \<open>error\<close>; \<open>error\<close> is null when the call succeeded.
\<close>

datatype 'a awaited = Resolved 'a | Rejected StoreError

text \<open>
  The React state of \<open>BookmarkGrid\<close>: the working list, the filtered view, the search
  text and the selected tags, with the notifications raised so far. The tag universe
  (\<open>allTags\<close>) and the loading flag are not part of the model.
\<close>

record GridState =
  bookmarks :: "Bookmark list"
  filteredBookmarks :: "Bookmark list"
  searchTerm :: jsstring
  selectedTags :: "jsstring list"
  toasts :: "Toast list"

section \<open>Filter derivation\<close>

text \<open>The predicate of the search filter (source lines 334 to 338).\<close>

definition matchesSearch :: "(jsstring \<Rightarrow> jsstring) \<Rightarrow> jsstring \<Rightarrow> Bookmark \<Rightarrow> bool" where
  "matchesSearch toLowerCase term bookmark \<longleftrightarrow>
     includes_js (toLowerCase (title bookmark)) (toLowerCase term) \<or>
     includes_js (toLowerCase (url bookmark)) (toLowerCase term) \<or>
     (case summary bookmark of
        None \<Rightarrow> False
      | Some s \<Rightarrow> includes_js (toLowerCase s) (toLowerCase term))"

text \<open>The predicate of the tag filter (source lines 343 to 345).\<close>

definition matchesTags :: "jsstring list \<Rightarrow> Bookmark \<Rightarrow> bool" where
  "matchesTags selected bookmark \<longleftrightarrow> list_ex (\<lambda>tag. tag \<in> set (tags bookmark)) selected"

text \<open>The body of the filter effect: the value passed to \<open>setFilteredBookmarks\<close>.\<close>

definition filterBookmarks ::
  "(jsstring \<Rightarrow> jsstring) \<Rightarrow> Bookmark list \<Rightarrow> jsstring \<Rightarrow> jsstring list \<Rightarrow> Bookmark list" where
  "filterBookmarks toLowerCase bs term selected =
     (let filtered = bs;
          filtered = (if term \<noteq> [] then filter (matchesSearch toLowerCase term) filtered
                      else filtered);
          filtered = (if length selected > 0 then filter (matchesTags selected) filtered
                      else filtered)
      in filtered)"

text \<open>The effect itself, run whenever the working list, the search text or the tags change.\<close>

definition filterEffect :: "(jsstring \<Rightarrow> jsstring) \<Rightarrow> GridState \<Rightarrow> GridState" where
  "filterEffect toLowerCase st =
     st\<lparr>filteredBookmarks :=
          filterBookmarks toLowerCase (bookmarks st) (searchTerm st) (selectedTags st)\<rparr>"

section \<open>Fetch and normalise\<close>

text \<open>
  The map of \<open>fetchBookmarks\<close> (source lines 299 to 302): every row is copied, and its
  \<open>position\<close> is \<open>bookmark.position ?? index\<close>.
\<close>

definition bookmarksWithOrder :: "StoredRow list \<Rightarrow> Bookmark list" where
  "bookmarksWithOrder data =
     map (\<lambda>(bookmark, index).
            \<lparr>id_of = id_of bookmark, url = url bookmark, title = title bookmark,
             favicon_url = favicon_url bookmark, summary = summary bookmark,
             tags = tags bookmark, created_at = created_at bookmark,
             position = (case position bookmark of Some p \<Rightarrow> p | None \<Rightarrow> int index)\<rparr>)
         (zip data [0..<length data])"

text \<open>
  \<open>fetchBookmarks\<close>: nothing happens without a user; the select resolves with \<open>data\<close>
  (possibly null) and \<open>error\<close>; an error, returned or thrown, becomes a notification and
  leaves the working list as it was.
\<close>

definition fetchBookmarks ::
  "jsstring option \<Rightarrow> (StoredRow list option \<times> StoreError option) awaited \<Rightarrow> GridState \<Rightarrow> GridState" where
  "fetchBookmarks user reply st =
     (case user of
        None \<Rightarrow> st
      | Some uid \<Rightarrow>
          (case (case reply of
                   Rejected e \<Rightarrow> Inl e
                 | Resolved (data, error) \<Rightarrow> (case error of Some e \<Rightarrow> Inl e | None \<Rightarrow> Inr data)) of
             Inl e \<Rightarrow>
               st\<lparr>toasts := toasts st @
                     [\<lparr>toast_title = js ''Error loading bookmarks'', description = message e,
                       variant = Destructive\<rparr>]\<rparr>
           | Inr data \<Rightarrow>
               st\<lparr>bookmarks := bookmarksWithOrder (case data of Some rows \<Rightarrow> rows | None \<Rightarrow> [])\<rparr>))"

section \<open>Delete\<close>

text \<open>The delete issued to the store: \<open>.delete().eq('id', id).eq('user_id', user?.id)\<close>.\<close>

record DeleteCall =
  delete_eq_id :: jsstring
  delete_eq_user_id :: "jsstring option"

text \<open>
  \<open>handleDeleteBookmark\<close>: the awaited result's \<open>error\<close> is thrown when it is set, so a
  returned error and a rejected promise both reach the \<open>catch\<close>.
\<close>

definition handleDeleteBookmark ::
  "jsstring option \<Rightarrow> StoreError option awaited \<Rightarrow> GridState \<Rightarrow> jsstring \<Rightarrow> GridState \<times> DeleteCall" where
  "handleDeleteBookmark user reply st i =
     (let call = \<lparr>delete_eq_id = i, delete_eq_user_id = user\<rparr>;
          thrown = (case reply of Rejected e \<Rightarrow> Some e | Resolved error \<Rightarrow> error)
      in case thrown of
           None \<Rightarrow>
             (st\<lparr>bookmarks := filter (\<lambda>b. id_of b \<noteq> i) (bookmarks st),
                 toasts := toasts st @
                   [\<lparr>toast_title = js ''Bookmark deleted'',
                     description = js ''The bookmark has been removed from your collection.'',
                     variant = Default\<rparr>]\<rparr>, call)
         | Some e \<Rightarrow>
             (st\<lparr>toasts := toasts st @
                   [\<lparr>toast_title = js ''Error deleting bookmark'', description = message e,
                     variant = Destructive\<rparr>]\<rparr>, call))"

section \<open>Reorder and persist\<close>

text \<open>\<open>Array.prototype.findIndex\<close>: the index of the first match, or \<open>-1\<close>.\<close>

primrec findIndex :: "('a \<Rightarrow> bool) \<Rightarrow> 'a list \<Rightarrow> int" where
  "findIndex P [] = - 1"
| "findIndex P (x # xs) =
     (if P x then 0 else (let k = findIndex P xs in if k = - 1 then - 1 else k + 1))"

text \<open>
  The start index of \<open>Array.prototype.splice\<close>: a negative start counts from the end, and
  the result is clamped to the array.
\<close>

definition spliceStart :: "nat \<Rightarrow> int \<Rightarrow> nat" where
  "spliceStart len start =
     (if start < 0 then nat (max (int len + start) 0) else min (nat start) len)"

text \<open>
  Modelled from the spec: \<open>arrayMove\<close> is imported from the package \<open>@dnd-kit/sortable\<close>
  and is not under the repository's sources; it removes the item at \<open>from\<close> and reinserts
  it at \<open>to\<close>, all other items keeping their relative order. The package does so with
  \<open>newArray.splice(to < 0 ? newArray.length + to : to, 0, newArray.splice(from, 1)[0])\<close>
  on a copy: the insertion index is computed on the full length, before the removal, and
  both splices clamp their start. Where the removal finds no element (only on an empty
  array, for the indices \<open>findIndex\<close> returns) JavaScript inserts \<open>undefined\<close>, which no
  \<open>Bookmark list\<close> holds: the model returns \<open>None\<close> there.
\<close>

definition arrayMove :: "'a list \<Rightarrow> int \<Rightarrow> int \<Rightarrow> 'a list option" where
  "arrayMove array from_ix to_ix =
     (let insertAt = (if to_ix < 0 then int (length array) + to_ix else to_ix);
          k = spliceStart (length array) from_ix
      in if k < length array then
           (let item = array ! k;
                newArray = take k array @ drop (Suc k) array;
                j = spliceStart (length newArray) insertAt
            in Some (take j newArray @ item # drop j newArray))
         else None)"

text \<open>The drag gesture: \<open>active.id\<close>, and \<open>over?.id\<close> (\<open>None\<close> when \<open>over\<close> is null).\<close>

record DragEndEvent =
  active :: jsstring
  over :: "jsstring option"

text \<open>
  One persistence call:
  \<open>.update({ position }).eq('id', update.id).eq('user_id', user?.id)\<close>.
\<close>

record UpdateCall =
  update_position :: int
  update_eq_id :: jsstring
  update_eq_user_id :: "jsstring option"

text \<open>The \<open>updates\<close> array (source lines 400 to 403): every item of the new order, with its index.\<close>

definition updatesOf :: "jsstring option \<Rightarrow> Bookmark list \<Rightarrow> UpdateCall list" where
  "updatesOf user newOrderedBookmarks =
     map (\<lambda>(bookmark, index).
            \<lparr>update_position = int index, update_eq_id = id_of bookmark, update_eq_user_id = user\<rparr>)
         (zip newOrderedBookmarks [0..<length newOrderedBookmarks])"

text \<open>
  The \<open>for\<close> loop (source lines 405 to 411). \<open>reply k\<close> is the outcome of the \<open>k\<close>-th
  awaited call. Each call is awaited before the next is issued; a rejected call throws
  and ends the loop; the value a call resolves with is discarded, whatever its \<open>error\<close>.
  The result is the calls issued, in order, and what was thrown.
\<close>

fun persistUpdates ::
  "(nat \<Rightarrow> StoreError option awaited) \<Rightarrow> nat \<Rightarrow> UpdateCall list \<Rightarrow> UpdateCall list \<times> StoreError option" where
  "persistUpdates reply k [] = ([], None)"
| "persistUpdates reply k (update # rest) =
     (case reply k of
        Rejected e \<Rightarrow> ([update], Some e)
      | Resolved result \<Rightarrow>
          (let (issued, thrown) = persistUpdates reply (Suc k) rest
           in (update # issued, thrown)))"

text \<open>
  The \<open>forEach\<close> of the \<open>setBookmarks\<close> updater (source lines 416 to 421): each item of the
  new order overwrites the first item of the working list with its id, with the item's
  index as position.
\<close>

fun overwritePositions :: "Bookmark list \<Rightarrow> nat \<Rightarrow> Bookmark list \<Rightarrow> Bookmark list" where
  "overwritePositions [] index updated = updated"
| "overwritePositions (bookmark # rest) index updated =
     (let bookmarkIndex = findIndex (\<lambda>b. id_of b = id_of bookmark) updated
      in overwritePositions rest (Suc index)
           (if bookmarkIndex \<noteq> - 1
            then updated[nat bookmarkIndex := bookmark\<lparr>position := int index\<rparr>]
            else updated))"

text \<open>
  The updater itself: the overwritten copy, sorted by \<open>a.position - b.position\<close>.
  \<open>Array.prototype.sort\<close> is stable, as \<open>sort_key\<close> is.
\<close>

definition reconcile :: "Bookmark list \<Rightarrow> Bookmark list \<Rightarrow> Bookmark list" where
  "reconcile prev newOrderedBookmarks =
     sort_key position (overwritePositions newOrderedBookmarks 0 prev)"

text \<open>
  What the \<open>forEach\<close> makes of one item of the working list when the ids of the working
  list are pairwise different: the item is replaced by each item of the new order that
  has its id, in turn. Used to state and prove what \<open>overwritePositions\<close> computes.
\<close>

fun overwritten :: "Bookmark list \<Rightarrow> nat \<Rightarrow> Bookmark \<Rightarrow> Bookmark" where
  "overwritten [] index b = b"
| "overwritten (bookmark # rest) index b =
     overwritten rest (Suc index)
       (if id_of b = id_of bookmark then bookmark\<lparr>position := int index\<rparr> else b)"

text \<open>
  \<open>handleDragEnd\<close>. The result is the state the handler leaves and the persistence calls
  it issued, in order; \<open>None\<close> stands for a view that would hold \<open>undefined\<close> (see
  \<open>arrayMove\<close>). The \<open>catch\<close> is reached only by a thrown error. The \<open>prev\<close> of the
  \<open>setBookmarks\<close> updater is the working list of the state: no other update of the
  state comes between the gesture and the end of the handler.
\<close>

definition handleDragEnd ::
  "jsstring option \<Rightarrow> (nat \<Rightarrow> StoreError option awaited) \<Rightarrow> GridState \<Rightarrow> DragEndEvent
     \<Rightarrow> (GridState \<times> UpdateCall list) option" where
  "handleDragEnd user reply st event =
     (if Some (active event) \<noteq> over event then
        (let oldIndex = findIndex (\<lambda>item. id_of item = active event) (filteredBookmarks st);
             newIndex = findIndex (\<lambda>item. Some (id_of item) = over event) (filteredBookmarks st)
         in case arrayMove (filteredBookmarks st) oldIndex newIndex of
              None \<Rightarrow> None
            | Some newOrderedBookmarks \<Rightarrow>
                (let st1 = st\<lparr>filteredBookmarks := newOrderedBookmarks\<rparr>;
                     (issued, thrown) = persistUpdates reply 0 (updatesOf user newOrderedBookmarks)
                 in case thrown of
                      None \<Rightarrow>
                        Some (st1\<lparr>bookmarks := reconcile (bookmarks st1) newOrderedBookmarks\<rparr>,
                              issued)
                    | Some error \<Rightarrow>
                        (case arrayMove newOrderedBookmarks newIndex oldIndex of
                           None \<Rightarrow> None
                         | Some reverted \<Rightarrow>
                             Some (st1\<lparr>toasts := toasts st1 @
                                         [\<lparr>toast_title = js ''Error updating order'',
                                           description = message error,
                                           variant = Destructive\<rparr>],
                                       filteredBookmarks := reverted\<rparr>,
                                   issued))))
      else Some (st, []))"

section \<open>The Add-Bookmark form\<close>

text \<open>
  What \<open>generateSummary\<close> meets on the network: \<open>fetch\<close> rejects, or resolves with a
  response whose \<open>ok\<close> flag is read and whose \<open>text()\<close> in turn resolves or rejects.
\<close>

datatype text_outcome = TextResolved jsstring | TextRejected

datatype fetch_outcome = FetchResolved bool text_outcome | FetchRejected

datatype thrown = Thrown

definition placeholder :: jsstring where
  "placeholder = js ''Summary temporarily unavailable.''"

text \<open>The \<open>try\<close> block of \<open>generateSummary\<close> (source lines 67 to 77); \<open>Inl\<close> is a throw.\<close>

definition generateSummaryTry :: "fetch_outcome \<Rightarrow> thrown + jsstring option" where
  "generateSummaryTry outcome =
     (case outcome of
        FetchRejected \<Rightarrow> Inl Thrown
      | FetchResolved ok text \<Rightarrow>
          if \<not> ok then Inr (Some placeholder)
          else (case text of
                  TextRejected \<Rightarrow> Inl Thrown
                | TextResolved summary_text \<Rightarrow>
                    Inr (Some (if length summary_text > 500
                               then substring0 summary_text 500 @ js ''...''
                               else summary_text))))"

text \<open>\<open>generateSummary\<close>: the \<open>try\<close> block under its \<open>catch\<close>.\<close>

definition generateSummary :: "fetch_outcome \<Rightarrow> thrown + jsstring option" where
  "generateSummary outcome =
     (case generateSummaryTry outcome of
        Inl error \<Rightarrow> Inr (Some placeholder)
      | Inr result \<Rightarrow> Inr result)"

text \<open>The tags of \<open>handleSubmit\<close> (source lines 101 to 104); \<open>0x2C\<close> is the comma.\<close>

definition parseTags :: "jsstring \<Rightarrow> jsstring list" where
  "parseTags input = filter (\<lambda>tag. length tag > 0) (map trim (split 0x2C input))"

text \<open>The fields \<open>handleSubmit\<close> reads of the parsed \<open>URL\<close> object.\<close>

record ParsedURL =
  href :: jsstring
  protocol :: jsstring
  hostname :: jsstring

text \<open>The row \<open>handleSubmit\<close> inserts (source lines 109 to 116).\<close>

record InsertRow =
  insert_user_id :: jsstring
  insert_url :: jsstring
  insert_title :: jsstring
  insert_summary :: "jsstring option"
  insert_tags :: "jsstring list"
  insert_favicon_url :: jsstring

definition insertRow ::
  "jsstring \<Rightarrow> ParsedURL \<Rightarrow> jsstring \<Rightarrow> jsstring option \<Rightarrow> jsstring \<Rightarrow> InsertRow" where
  "insertRow user_id parsed metadata_title summary_opt tags_input =
     \<lparr>insert_user_id = user_id,
      insert_url = href parsed,
      insert_title = metadata_title,
      insert_summary =
        (case summary_opt of
           None \<Rightarrow> None
         | Some s \<Rightarrow> if s \<noteq> [] then Some (substring0 s 1000) else None),
      insert_tags = parseTags tags_input,
      insert_favicon_url = protocol parsed @ js ''//'' @ hostname parsed @ js ''/favicon.ico''\<rparr>"

text \<open>
  \<open>Array.prototype.join\<close> with a one-unit separator: the reading of ``the
  comma-separated segments of the input'' against which \<open>split\<close> is compared.
\<close>

fun joinWith :: "'a \<Rightarrow> 'a list list \<Rightarrow> 'a list" where
  "joinWith sep [] = []"
| "joinWith sep [seg] = seg"
| "joinWith sep (seg # segs) = seg @ sep # joinWith sep segs"

section \<open>Sample inputs\<close>

text \<open>Concrete bookmarks and states on which the theorems below are evaluated.\<close>

definition githubDocs :: Bookmark where
  "githubDocs =
     \<lparr>id_of = js ''1'', url = js ''https://github.com/x'', title = js ''GitHub Docs'',
      favicon_url = None, summary = None, tags = [js ''personal'', js ''work''],
      created_at = [], position = 0\<rparr>"

definition gridOf :: "Bookmark list \<Rightarrow> GridState" where
  "gridOf bs =
     \<lparr>bookmarks = bs, filteredBookmarks = bs, searchTerm = [], selectedTags = [], toasts = []\<rparr>"

text \<open>
  Scenario A of the specification: the items 1, 2, 3 at the positions 0, 1, 2, unfiltered;
  an owner, drag gestures, and three stores: one where every update succeeds, one whose
  second update resolves with an error, and one whose second update rejects.
\<close>

definition item :: "string \<Rightarrow> int \<Rightarrow> Bookmark" where
  "item i p =
     \<lparr>id_of = js i, url = js ''https://example.com'', title = js ''Example'',
      favicon_url = None, summary = None, tags = [], created_at = [], position = p\<rparr>"

definition scenarioA :: GridState where
  "scenarioA = gridOf [item ''1'' 0, item ''2'' 1, item ''3'' 2]"

definition owner :: "jsstring option" where
  "owner = Some (js ''u1'')"

definition drag :: "string \<Rightarrow> string \<Rightarrow> DragEndEvent" where
  "drag a b = \<lparr>active = js a, over = Some (js b)\<rparr>"

definition allSucceed :: "nat \<Rightarrow> StoreError option awaited" where
  "allSucceed k = Resolved None"

definition secondReturnsError :: "nat \<Rightarrow> StoreError option awaited" where
  "secondReturnsError k =
     (if k = 1 then Resolved (Some \<lparr>message = js ''permission denied''\<rparr>) else Resolved None)"

definition secondRejects :: "nat \<Rightarrow> StoreError option awaited" where
  "secondRejects k =
     (if k = 1 then Rejected \<lparr>message = js ''Failed to fetch''\<rparr> else Resolved None)"

definition storedRow :: "string \<Rightarrow> int option \<Rightarrow> StoredRow" where
  "storedRow i p =
     \<lparr>id_of = js i, url = js ''https://example.com'', title = js ''Example'',
      favicon_url = None, summary = None, tags = [], created_at = [], position = p\<rparr>"

text \<open>Scenario D of the specification: three rows with positions null, 1 and 0.\<close>

definition scenarioD :: "StoredRow list" where
  "scenarioD = [storedRow ''a'' None, storedRow ''b'' (Some 1), storedRow ''c'' (Some 0)]"

definition sampleURL :: ParsedURL where
  "sampleURL = \<lparr>href = js ''https://a.b/'', protocol = js ''https:'', hostname = js ''a.b''\<rparr>"

section \<open>Properties of the filter\<close>

lemma includes_iff: "includes_js hay needle \<longleftrightarrow> (\<exists>pre post. hay = pre @ needle @ post)"
proof (induction hay)
  case Nil
  then show ?case by simp
next
  case (Cons c cs)
  show ?case
  proof
    assume "includes_js (c # cs) needle"
    then consider "prefix needle (c # cs)" | "includes_js cs needle" by auto
    then show "\<exists>pre post. c # cs = pre @ needle @ post"
    proof cases
      case 1
      then obtain post where "c # cs = needle @ post" by (auto simp: prefix_def)
      then have "c # cs = [] @ needle @ post" by simp
      then show ?thesis by blast
    next
      case 2
      with Cons.IH obtain pre post where "cs = pre @ needle @ post" by blast
      then have "c # cs = (c # pre) @ needle @ post" by simp
      then show ?thesis by blast
    qed
  next
    assume "\<exists>pre post. c # cs = pre @ needle @ post"
    then obtain pre post where eq: "c # cs = pre @ needle @ post" by blast
    show "includes_js (c # cs) needle"
    proof (cases pre)
      case Nil
      with eq have "prefix needle (c # cs)" by (simp add: prefix_def)
      then show ?thesis by simp
    next
      case (Cons p ps)
      with eq have "cs = ps @ needle @ post" by simp
      with Cons.IH have "includes_js cs needle" by blast
      then show ?thesis by simp
    qed
  qed
qed

text \<open>
  C5: the filtered view is a function of the working list, the search text and the
  selected tags alone. With an empty search text and no selected tag it is the working
  list itself; for any inputs it is a subsequence of the working list, so the relative
  order of the working list is kept; and the effect writes the filtered view and nothing
  else of the state.
\<close>

theorem filter_identity_and_order:
  "filterBookmarks lc L [] [] = L \<and>
   subseq (filterBookmarks lc L s T) L \<and>
   filteredBookmarks (filterEffect lc st) =
     filterBookmarks lc (bookmarks st) (searchTerm st) (selectedTags st) \<and>
   bookmarks (filterEffect lc st) = bookmarks st \<and>
   searchTerm (filterEffect lc st) = searchTerm st \<and>
   selectedTags (filterEffect lc st) = selectedTags st \<and>
   toasts (filterEffect lc st) = toasts st"
proof -
  have "subseq (filterBookmarks lc L s T) L"
    unfolding filterBookmarks_def Let_def
    by (auto intro: subseq_order.trans subseq_filter_left)
  then show ?thesis
    by (simp add: filterBookmarks_def filterEffect_def)
qed

text \<open>
  C4: a bookmark is in the filtered view exactly when it is in the working list, and the
  search text is empty or occurs, both sides lower-cased, in its title, its url or its
  non-null summary, and no tag is selected or one of the selected tags is among its tags.
\<close>

theorem filter_conjunctive:
  "b \<in> set (filterBookmarks lc L s T) \<longleftrightarrow>
     b \<in> set L \<and>
     (s = [] \<or>
      includes_js (lc (title b)) (lc s) \<or>
      includes_js (lc (url b)) (lc s) \<or>
      (\<exists>text. summary b = Some text \<and> includes_js (lc text) (lc s))) \<and>
     (T = [] \<or> (\<exists>tag \<in> set T. tag \<in> set (tags b)))"
  by (auto simp: filterBookmarks_def matchesSearch_def matchesTags_def list_ex_iff
           split: option.splits)

theorem filter_conjunctive_witness:
  "githubDocs \<in> set (filterBookmarks asciiLower [githubDocs, item ''2'' 1]
                        (js ''github'') [js ''work'']) \<and>
   item ''2'' 1 \<notin> set (filterBookmarks asciiLower [githubDocs, item ''2'' 1] (js ''github'') []) \<and>
   item ''2'' 1 \<notin> set (filterBookmarks asciiLower [githubDocs, item ''2'' 1] [] [js ''work''])"
  using
    filter_conjunctive [of githubDocs asciiLower "[githubDocs, item ''2'' 1]" "js ''github''"
      "[js ''work'']"]
    filter_conjunctive [of "item ''2'' 1" asciiLower "[githubDocs, item ''2'' 1]" "js ''github''"
      "[]"]
    filter_conjunctive [of "item ''2'' 1" asciiLower "[githubDocs, item ''2'' 1]" "[]"
      "[js ''work'']"]
  by (simp add: githubDocs_def item_def js_def asciiLower_def)

section \<open>Fetch and normalise: properties\<close>

lemma bookmarksWithOrder_nth:
  assumes "i < length data"
  shows "bookmarksWithOrder data ! i =
     \<lparr>id_of = id_of (data ! i), url = url (data ! i), title = title (data ! i),
      favicon_url = favicon_url (data ! i), summary = summary (data ! i),
      tags = tags (data ! i), created_at = created_at (data ! i),
      position = (case position (data ! i) of Some p \<Rightarrow> p | None \<Rightarrow> int i)\<rparr>"
  using assms by (simp add: bookmarksWithOrder_def)

text \<open>
  C6, as stated, fails on its own example: the rows of Scenario D do not normalise to the
  positions 0, 1, 2, since a row that has a position keeps it.
\<close>

theorem scenarioD_counterexample:
  "map position (bookmarksWithOrder scenarioD) \<noteq> [0, 1, 2]"
  by (simp add: bookmarksWithOrder_def scenarioD_def storedRow_def upt_rec)

text \<open>
  C6, amended: the normalised list has the length and the order of the rows returned;
  the row at index \<open>i\<close> gets position \<open>i\<close> when its position is null and keeps its own
  position otherwise, every other field being copied; so every bookmark has an integer
  position. The rows of Scenario D, with positions null, 1, 0, get the positions 0, 1, 0.
  A fetch that succeeds makes the normalised list the working list.
\<close>

theorem normalize_positions:
  "length (bookmarksWithOrder data) = length data \<and>
   (\<forall>i < length data.
      position (bookmarksWithOrder data ! i) =
        (case position (data ! i) of None \<Rightarrow> int i | Some p \<Rightarrow> p) \<and>
      id_of (bookmarksWithOrder data ! i) = id_of (data ! i) \<and>
      url (bookmarksWithOrder data ! i) = url (data ! i) \<and>
      title (bookmarksWithOrder data ! i) = title (data ! i) \<and>
      favicon_url (bookmarksWithOrder data ! i) = favicon_url (data ! i) \<and>
      summary (bookmarksWithOrder data ! i) = summary (data ! i) \<and>
      tags (bookmarksWithOrder data ! i) = tags (data ! i) \<and>
      created_at (bookmarksWithOrder data ! i) = created_at (data ! i)) \<and>
   map position (bookmarksWithOrder scenarioD) = [0, 1, 0] \<and>
   bookmarks (fetchBookmarks (Some uid) (Resolved (Some data, None)) st) =
     bookmarksWithOrder data"
proof (intro conjI allI impI)
  show "bookmarks (fetchBookmarks (Some uid) (Resolved (Some data, None)) st) =
     bookmarksWithOrder data"
    by (simp add: fetchBookmarks_def)
  show "length (bookmarksWithOrder data) = length data"
    by (simp add: bookmarksWithOrder_def)
  show "map position (bookmarksWithOrder scenarioD) = [0, 1, 0]"
    by (simp add: bookmarksWithOrder_def scenarioD_def storedRow_def upt_rec)
qed (simp_all add: bookmarksWithOrder_nth split: option.splits)

theorem normalize_positions_witness:
  "(0::nat) < length scenarioD \<and> position (bookmarksWithOrder scenarioD ! 0) = 0 \<and>
   (2::nat) < length scenarioD \<and> position (bookmarksWithOrder scenarioD ! 2) = 0"
  using normalize_positions [of scenarioD]
  by (simp add: scenarioD_def storedRow_def)

section \<open>Delete: properties\<close>

text \<open>
  C7: the delete is scoped by the id and the owner. When the store reports success, the
  working list loses exactly the items with that id, the others staying as they are,
  positions included. When the store returns an error or the call rejects, the state is
  untouched but for one destructive notification. Deleting an id that is not in the
  working list leaves the working list unchanged, whatever the store replies; the
  handler is total, so it never raises.
\<close>

theorem delete_contract:
  "handleDeleteBookmark user (Resolved None) st i =
     (st\<lparr>bookmarks := filter (\<lambda>b. id_of b \<noteq> i) (bookmarks st),
         toasts := toasts st @
           [\<lparr>toast_title = js ''Bookmark deleted'',
             description = js ''The bookmark has been removed from your collection.'',
             variant = Default\<rparr>]\<rparr>,
      \<lparr>delete_eq_id = i, delete_eq_user_id = user\<rparr>) \<and>
   handleDeleteBookmark user (Resolved (Some e)) st i =
     (st\<lparr>toasts := toasts st @
           [\<lparr>toast_title = js ''Error deleting bookmark'', description = message e,
             variant = Destructive\<rparr>]\<rparr>,
      \<lparr>delete_eq_id = i, delete_eq_user_id = user\<rparr>) \<and>
   handleDeleteBookmark user (Rejected e) st i =
     (st\<lparr>toasts := toasts st @
           [\<lparr>toast_title = js ''Error deleting bookmark'', description = message e,
             variant = Destructive\<rparr>]\<rparr>,
      \<lparr>delete_eq_id = i, delete_eq_user_id = user\<rparr>) \<and>
   (i \<notin> id_of ` set (bookmarks st) \<longrightarrow>
      bookmarks (fst (handleDeleteBookmark user reply st i)) = bookmarks st)"
proof -
  have "i \<notin> id_of ` set (bookmarks st) \<Longrightarrow> filter (\<lambda>b. id_of b \<noteq> i) (bookmarks st) = bookmarks st"
    by (rule filter_True) auto
  then show ?thesis
    by (cases reply) (auto simp: handleDeleteBookmark_def Let_def split: option.splits)
qed

theorem delete_contract_witness:
  "js ''9'' \<notin> id_of ` set [githubDocs] \<and>
   bookmarks (fst (handleDeleteBookmark (Some (js ''u'')) (Resolved None)
      (gridOf [githubDocs]) (js ''9''))) = [githubDocs]"
  using delete_contract [where user = "Some (js ''u'')" and i = "js ''9''"
      and reply = "Resolved None"
      and st = "gridOf [githubDocs]"]
  by (simp add: gridOf_def githubDocs_def js_def)

section \<open>The Add-Bookmark form: properties\<close>

lemma length_placeholder: "length placeholder = 32"
  by (simp add: placeholder_def js_def)

text \<open>
  C9: \<open>generateSummary\<close> always returns a string and never throws. When \<open>fetch\<close> rejects,
  the response is not ok, or reading its text rejects, the result is the placeholder.
  On success the result is the raw text when that has at most 500 code units, and its
  first 500 code units followed by the marker \<open>...\<close> otherwise (so at most 503 code
  units). The summary stored by \<open>handleSubmit\<close> is null or the first 1000 code units of
  the summary it was given.
\<close>

theorem summary_never_raises_and_capped:
  "(\<exists>v. generateSummary outcome = Inr (Some v) \<and> length v \<le> 503) \<and>
   generateSummary FetchRejected = Inr (Some placeholder) \<and>
   generateSummary (FetchResolved False body) = Inr (Some placeholder) \<and>
   generateSummary (FetchResolved True TextRejected) = Inr (Some placeholder) \<and>
   generateSummary (FetchResolved True (TextResolved raw)) =
     Inr (Some (if length raw > 500 then take 500 raw @ js ''...'' else raw)) \<and>
   (case insert_summary (insertRow user_id parsed metadata_title summary_opt tags_input) of
      None \<Rightarrow> summary_opt = None \<or> summary_opt = Some []
    | Some stored \<Rightarrow>
        length stored \<le> 1000 \<and> (\<exists>full. summary_opt = Some full \<and> stored = take 1000 full))"
proof -
  have 1: "\<exists>v. generateSummary outcome = Inr (Some v) \<and> length v \<le> 503"
  proof (cases outcome)
    case FetchRejected
    then show ?thesis
      by (simp add: generateSummary_def generateSummaryTry_def length_placeholder)
  next
    case (FetchResolved ok body)
    then show ?thesis
      by (cases body)
         (simp_all add: generateSummary_def generateSummaryTry_def length_placeholder
            substring0_def js_def)
  qed
  have 2: "case insert_summary (insertRow user_id parsed metadata_title summary_opt tags_input) of
      None \<Rightarrow> summary_opt = None \<or> summary_opt = Some []
    | Some stored \<Rightarrow>
        length stored \<le> 1000 \<and> (\<exists>full. summary_opt = Some full \<and> stored = take 1000 full)"
    by (cases summary_opt) (simp_all add: insertRow_def substring0_def)
  show ?thesis
    using 1 2
    by (cases body) (simp_all add: generateSummary_def generateSummaryTry_def substring0_def)
qed

lemma split_nonempty: "split sep s \<noteq> []"
  by (induction s) (auto split: list.splits)

lemma join_split: "joinWith sep (split sep s) = s"
proof (induction s)
  case Nil
  then show ?case by simp
next
  case (Cons c cs)
  obtain seg segs where sp: "split sep cs = seg # segs"
    using split_nonempty [of sep cs] by (cases "split sep cs") auto
  with Cons show ?case
    by (cases segs) auto
qed

lemma split_no_sep: "seg \<in> set (split sep s) \<Longrightarrow> sep \<notin> set seg"
proof (induction s arbitrary: seg)
  case Nil
  then show ?case by simp
next
  case (Cons c cs)
  then show ?case
    by (auto split: if_splits list.splits)
qed

lemma trim_decompose:
  "s = takeWhile isWhiteSpace s @ trim s @ rev (takeWhile isWhiteSpace (rev (dropWhile isWhiteSpace s)))"
proof -
  let ?d = "dropWhile isWhiteSpace s"
  have "rev (takeWhile isWhiteSpace (rev ?d) @ dropWhile isWhiteSpace (rev ?d)) = ?d"
    by (simp only: takeWhile_dropWhile_id rev_rev_ident)
  then have "trim s @ rev (takeWhile isWhiteSpace (rev ?d)) = ?d"
    by (simp only: rev_append trim_def)
  moreover have "s = takeWhile isWhiteSpace s @ ?d"
    by (simp only: takeWhile_dropWhile_id)
  ultimately show ?thesis by simp
qed

lemma trim_last: "trim s \<noteq> [] \<Longrightarrow> \<not> isWhiteSpace (last (trim s))"
  unfolding trim_def
  by (metis hd_dropWhile last_rev rev_is_Nil_conv)

lemma trim_hd:
  assumes "trim s \<noteq> []"
  shows "\<not> isWhiteSpace (hd (trim s))"
proof -
  let ?d = "dropWhile isWhiteSpace s"
  have "s = takeWhile isWhiteSpace s @ ?d"
    by (simp only: takeWhile_dropWhile_id)
  with trim_decompose [of s]
  have d: "?d = trim s @ rev (takeWhile isWhiteSpace (rev ?d))"
    by (metis same_append_eq)
  with assms have "?d \<noteq> []" by (metis append_is_Nil_conv)
  then have "\<not> isWhiteSpace (hd ?d)" by (rule hd_dropWhile)
  moreover from d assms have "hd ?d = hd (trim s)" by (metis hd_append2)
  ultimately show ?thesis by simp
qed

text \<open>
  C10: the stored tags are the segments of the input between commas, each trimmed, the
  empty ones dropped, in the order of the input and with duplicates kept. The segments
  are those of the input: joined by commas they give the input back, and none holds a
  comma. Trimming a segment removes a run of white space at each end and nothing else.
  Hence a stored tag is never empty and neither starts nor ends with white space.
\<close>

theorem tags_parsed:
  "insert_tags (insertRow user_id parsed metadata_title summary_opt input) =
     filter (\<lambda>seg. seg \<noteq> []) (map trim (split 0x2C input)) \<and>
   joinWith 0x2C (split 0x2C input) = input \<and>
   (\<forall>seg \<in> set (split 0x2C input). 0x2C \<notin> set seg) \<and>
   (\<forall>seg. \<exists>before after. seg = before @ trim seg @ after \<and>
      list_all isWhiteSpace before \<and> list_all isWhiteSpace after \<and>
      (trim seg = [] \<or> \<not> isWhiteSpace (hd (trim seg)) \<and> \<not> isWhiteSpace (last (trim seg)))) \<and>
   (\<forall>tag \<in> set (insert_tags (insertRow user_id parsed metadata_title summary_opt input)).
      tag \<noteq> [] \<and> \<not> isWhiteSpace (hd tag) \<and> \<not> isWhiteSpace (last tag))"
proof (intro conjI allI ballI)
  show "insert_tags (insertRow user_id parsed metadata_title summary_opt input) =
     filter (\<lambda>seg. seg \<noteq> []) (map trim (split 0x2C input))"
    by (simp add: insertRow_def parseTags_def)
  show "joinWith 0x2C (split 0x2C input) = input"
    by (rule join_split)
  show "0x2C \<notin> set seg" if "seg \<in> set (split 0x2C input)" for seg
    using that by (rule split_no_sep)
  show "\<exists>before after. seg = before @ trim seg @ after \<and>
      list_all isWhiteSpace before \<and> list_all isWhiteSpace after \<and>
      (trim seg = [] \<or> \<not> isWhiteSpace (hd (trim seg)) \<and> \<not> isWhiteSpace (last (trim seg)))" for seg
  proof (intro exI conjI)
    show "seg = takeWhile isWhiteSpace seg @ trim seg @
        rev (takeWhile isWhiteSpace (rev (dropWhile isWhiteSpace seg)))"
      by (rule trim_decompose)
    show "list_all isWhiteSpace (takeWhile isWhiteSpace seg)"
      by (simp add: list_all_iff) (meson set_takeWhileD)
    show "list_all isWhiteSpace (rev (takeWhile isWhiteSpace (rev (dropWhile isWhiteSpace seg))))"
      by (simp add: list_all_iff) (meson set_takeWhileD)
    show "trim seg = [] \<or> \<not> isWhiteSpace (hd (trim seg)) \<and> \<not> isWhiteSpace (last (trim seg))"
      using trim_hd trim_last by blast
  qed
  fix tag
  assume "tag \<in> set (insert_tags (insertRow user_id parsed metadata_title summary_opt input))"
  then obtain seg where "tag = trim seg" "tag \<noteq> []"
    by (auto simp: insertRow_def parseTags_def)
  then show "tag \<noteq> []" "\<not> isWhiteSpace (hd tag)" "\<not> isWhiteSpace (last tag)"
    using trim_hd trim_last by auto
qed

theorem tags_parsed_witness:
  "insert_tags (insertRow (js ''u'') sampleURL
       (js ''T'') None (js '' work, ,a b ,,work'')) = [js ''work'', js ''a b'', js ''work''] \<and>
   js ''work'' \<in> set (insert_tags (insertRow (js ''u'') sampleURL
       (js ''T'') None (js '' work, ,a b ,,work''))) \<and>
   js '' work'' \<in> set (split 0x2C (js '' work, ,a b ,,work''))"
  using tags_parsed [of "js ''u''"
       sampleURL
       "js ''T''" None "js '' work, ,a b ,,work''"]
  by (simp add: sampleURL_def js_def trim_def isWhiteSpace_def)

section \<open>Reorder: properties\<close>

subsection \<open>Indices and the single-element move\<close>

lemma findIndex_bounds: "- 1 \<le> findIndex P xs \<and> findIndex P xs < int (length xs)"
  by (induction xs) (auto simp: Let_def)

lemma findIndex_found: "0 \<le> findIndex P xs \<Longrightarrow> P (xs ! nat (findIndex P xs))"
proof (induction xs)
  case Nil
  then show ?case by simp
next
  case (Cons x xs)
  show ?case
  proof (cases "P x")
    case True
    then show ?thesis by simp
  next
    case False
    with Cons.prems have nn: "findIndex P xs \<noteq> - 1"
      by (auto simp: Let_def split: if_splits)
    with findIndex_bounds [of P xs] have ge: "0 \<le> findIndex P xs" by arith
    then have "nat (findIndex P xs + 1) = Suc (nat (findIndex P xs))" by arith
    with False nn ge Cons.IH show ?thesis by (simp add: Let_def)
  qed
qed

lemma findIndex_some: "\<exists>x \<in> set xs. P x \<Longrightarrow> 0 \<le> findIndex P xs"
proof (induction xs)
  case Nil
  then show ?case by simp
next
  case (Cons x xs)
  show ?case
  proof (cases "P x")
    case True
    then show ?thesis by simp
  next
    case False
    with Cons.prems have "\<exists>x \<in> set xs. P x" by auto
    with Cons.IH have "0 \<le> findIndex P xs" by blast
    with False show ?thesis by (simp add: Let_def)
  qed
qed

lemma insert_nth_at: "b \<le> length R \<Longrightarrow> (take b R @ x # drop b R) ! b = x"
  by (simp add: nth_append)

lemma insert_then_delete:
  "b \<le> length R \<Longrightarrow>
   take b (take b R @ x # drop b R) @ drop (Suc b) (take b R @ x # drop b R) = R"
  by simp

lemma remove1_inserted: "x \<notin> set R \<Longrightarrow> remove1 x (take b R @ x # drop b R) = R"
proof -
  assume "x \<notin> set R"
  then have "x \<notin> set (take b R)" by (meson in_set_takeD)
  then have "remove1 x (take b R @ x # drop b R) = take b R @ drop b R"
    by (simp add: remove1_append)
  then show ?thesis by simp
qed

lemma spliceStart_less:
  assumes "0 < n" "- 1 \<le> i" "i < int n"
  shows "spliceStart n i < n"
  using assms by (auto simp: spliceStart_def)

text \<open>The shape of \<open>arrayMove\<close> for the indices \<open>findIndex\<close> returns on a non-empty array.\<close>

lemma arrayMove_shape:
  assumes "xs \<noteq> []" "- 1 \<le> i" "i < int (length xs)" "- 1 \<le> j" "j < int (length xs)"
  defines "a \<equiv> spliceStart (length xs) i" and "b \<equiv> spliceStart (length xs) j"
  shows "a < length xs \<and> b < length xs \<and>
     arrayMove xs i j =
       Some (take b (take a xs @ drop (Suc a) xs) @ xs ! a # drop b (take a xs @ drop (Suc a) xs))"
proof -
  from assms(1) have n: "0 < length xs" by simp
  have a: "a < length xs" unfolding a_def using n assms(2,3) by (rule spliceStart_less)
  have b: "b < length xs" unfolding b_def using n assms(4,5) by (rule spliceStart_less)
  have len: "length (take a xs @ drop (Suc a) xs) = length xs - 1"
    using a by simp
  have "spliceStart (length xs - 1) (if j < 0 then int (length xs) + j else j) = b"
    using assms(4,5) n by (auto simp: spliceStart_def b_def)
  with a b len show ?thesis
    unfolding arrayMove_def Let_def a_def [symmetric] by simp
qed

lemma arrayMove_mset:
  assumes "xs \<noteq> []" "- 1 \<le> i" "i < int (length xs)" "- 1 \<le> j" "j < int (length xs)"
  shows "\<exists>ys. arrayMove xs i j = Some ys \<and> mset ys = mset xs \<and> length ys = length xs"
proof -
  let ?a = "spliceStart (length xs) i" and ?b = "spliceStart (length xs) j"
  let ?R = "take ?a xs @ drop (Suc ?a) xs"
  from arrayMove_shape [OF assms]
  have a: "?a < length xs" and eq: "arrayMove xs i j = Some (take ?b ?R @ xs ! ?a # drop ?b ?R)"
    by simp_all
  have "mset (take ?b ?R @ xs ! ?a # drop ?b ?R) = mset (take ?b ?R @ drop ?b ?R) + {#xs ! ?a#}"
    by simp
  also have "\<dots> = mset ?R + {#xs ! ?a#}" by (simp only: append_take_drop_id)
  also have "\<dots> = mset (take ?a xs @ xs ! ?a # drop (Suc ?a) xs)" by simp
  also have "\<dots> = mset xs" using a by (simp only: id_take_nth_drop [symmetric])
  finally have m: "mset (take ?b ?R @ xs ! ?a # drop ?b ?R) = mset xs" .
  then have "length (take ?b ?R @ xs ! ?a # drop ?b ?R) = length xs"
    by (rule mset_eq_length)
  with eq m show ?thesis by blast
qed

lemma arrayMove_revert:
  assumes "xs \<noteq> []" "- 1 \<le> i" "i < int (length xs)" "- 1 \<le> j" "j < int (length xs)"
    and "arrayMove xs i j = Some ys"
  shows "arrayMove ys j i = Some xs"
proof -
  define a where "a = spliceStart (length xs) i"
  define b where "b = spliceStart (length xs) j"
  define R where "R = take a xs @ drop (Suc a) xs"
  from arrayMove_shape [OF assms(1-5)]
  have a: "a < length xs" and b: "b < length xs"
    and eq: "arrayMove xs i j = Some (take b R @ xs ! a # drop b R)"
    by (simp_all add: a_def b_def R_def)
  with assms(6) have ys: "ys = take b R @ xs ! a # drop b R" by simp
  have lenR: "length R = length xs - 1" using a by (simp add: R_def)
  with b have bR: "b \<le> length R" by simp
  have len: "length ys = length xs" using lenR a bR by (simp add: ys)
  then have ne: "ys \<noteq> []" using assms(1) by auto
  from arrayMove_shape [OF ne, of j i] assms(2-5) len
  have eq2: "arrayMove ys j i =
     Some (take a (take b ys @ drop (Suc b) ys) @ ys ! b # drop a (take b ys @ drop (Suc b) ys))"
    by (simp add: a_def b_def)
  have nth: "ys ! b = xs ! a"
    unfolding ys using bR by (rule insert_nth_at)
  have del: "take b ys @ drop (Suc b) ys = R"
    unfolding ys using bR by (rule insert_then_delete)
  have "take a R @ xs ! a # drop a R = take a xs @ xs ! a # drop (Suc a) xs"
    using a by (simp add: R_def)
  also have "\<dots> = xs" using a by (simp only: id_take_nth_drop [symmetric])
  finally show ?thesis using eq2 nth del by simp
qed

lemma arrayMove_others_keep_order:
  assumes "xs \<noteq> []" "- 1 \<le> i" "i < int (length xs)" "- 1 \<le> j" "j < int (length xs)"
    and "arrayMove xs i j = Some ys" and "distinct xs"
  shows "remove1 (xs ! spliceStart (length xs) i) ys = remove1 (xs ! spliceStart (length xs) i) xs"
proof -
  define a where "a = spliceStart (length xs) i"
  define b where "b = spliceStart (length xs) j"
  define R where "R = take a xs @ drop (Suc a) xs"
  from arrayMove_shape [OF assms(1-5)]
  have a: "a < length xs" and b: "b < length xs"
    and eq: "arrayMove xs i j = Some (take b R @ xs ! a # drop b R)"
    by (simp_all add: a_def b_def R_def)
  with assms(6) have ys: "ys = take b R @ xs ! a # drop b R" by simp
  have xs: "xs = take a xs @ xs ! a # drop (Suc a) xs"
    using a by (rule id_take_nth_drop)
  with assms(7) have "distinct (take a xs @ xs ! a # drop (Suc a) xs)" by simp
  then have notin: "xs ! a \<notin> set (take a xs)" "xs ! a \<notin> set (drop (Suc a) xs)"
    by auto
  then have "xs ! a \<notin> set R" by (simp add: R_def)
  then have 1: "remove1 (xs ! a) ys = R"
    unfolding ys by (rule remove1_inserted)
  have "remove1 (xs ! a) (take a xs @ xs ! a # drop (Suc a) xs) = R"
    using notin by (simp add: remove1_append R_def)
  with xs have "remove1 (xs ! a) xs = R" by simp
  with 1 show ?thesis by (simp add: a_def)
qed

subsection \<open>The persistence loop\<close>

lemma persistUpdates_prefix: "prefix (fst (persistUpdates reply k us)) us"
proof (induction us arbitrary: k)
  case Nil
  then show ?case by simp
next
  case (Cons u us)
  from Cons.IH [of "Suc k"] show ?case
    by (cases "reply k") (simp_all add: case_prod_beta)
qed

lemma persistUpdates_awaits:
  "Suc m < length (fst (persistUpdates reply k us)) \<Longrightarrow> \<exists>r. reply (k + m) = Resolved r"
proof (induction us arbitrary: k m)
  case Nil
  then show ?case by simp
next
  case (Cons u us)
  show ?case
  proof (cases "reply k")
    case (Rejected e)
    with Cons.prems show ?thesis by simp
  next
    case (Resolved r)
    show ?thesis
    proof (cases m)
      case 0
      with Resolved show ?thesis by simp
    next
      case (Suc m')
      with Cons.prems Resolved have "Suc m' < length (fst (persistUpdates reply (Suc k) us))"
        by (simp split: prod.splits)
      from Cons.IH [OF this] Suc show ?thesis by simp
    qed
  qed
qed

lemma persistUpdates_all_resolved:
  "(\<And>m. m < length us \<Longrightarrow> \<exists>r. reply (k + m) = Resolved r) \<Longrightarrow>
   persistUpdates reply k us = (us, None)"
proof (induction us arbitrary: k)
  case Nil
  then show ?case by simp
next
  case (Cons u us)
  from Cons.prems [of 0] obtain r where r: "reply k = Resolved r" by auto
  have "\<exists>r. reply (Suc k + m) = Resolved r" if "m < length us" for m
    using Cons.prems [of "Suc m"] that by simp
  then have "persistUpdates reply (Suc k) us = (us, None)" by (rule Cons.IH)
  with r show ?case by simp
qed

lemma persistUpdates_first_rejected:
  "m < length us \<Longrightarrow> reply (k + m) = Rejected e \<Longrightarrow>
   (\<And>m'. m' < m \<Longrightarrow> \<exists>r. reply (k + m') = Resolved r) \<Longrightarrow>
   persistUpdates reply k us = (take (Suc m) us, Some e)"
proof (induction us arbitrary: k m)
  case Nil
  then show ?case by simp
next
  case (Cons u us)
  show ?case
  proof (cases m)
    case 0
    with Cons.prems show ?thesis by simp
  next
    case (Suc n)
    from Cons.prems(3) [of 0] Suc obtain r where r: "reply k = Resolved r" by auto
    have "\<exists>r. reply (Suc k + m') = Resolved r" if "m' < n" for m'
      using Cons.prems(3) [of "Suc m'"] that Suc by simp
    moreover from Cons.prems Suc have "n < length us" "reply (Suc k + n) = Rejected e"
      by simp_all
    ultimately have "persistUpdates reply (Suc k) us = (take (Suc n) us, Some e)"
      by (rule Cons.IH [rotated 2])
    with r Suc show ?thesis by simp
  qed
qed

lemma updatesOf_nth:
  "updatesOf user ys =
     map (\<lambda>k. \<lparr>update_position = int k, update_eq_id = id_of (ys ! k), update_eq_user_id = user\<rparr>)
       [0..<length ys]"
  by (rule nth_equalityI) (simp_all add: updatesOf_def)

subsection \<open>The working list after a reorder\<close>

lemma overwrite_one:
  assumes "distinct (map id_of updated)"
  shows "(if findIndex (\<lambda>b. id_of b = i) updated \<noteq> - 1
          then updated[nat (findIndex (\<lambda>b. id_of b = i) updated) := b']
          else updated) =
         map (\<lambda>u. if id_of u = i then b' else u) updated"
  using assms
proof (induction updated)
  case Nil
  then show ?case by simp
next
  case (Cons x xs)
  show ?case
  proof (cases "id_of x = i")
    case True
    from Cons.prems have "id_of x \<notin> id_of ` set xs" by simp
    with True have "\<forall>u \<in> set xs. id_of u \<noteq> i" by (metis imageI)
    then have "map (\<lambda>u. if id_of u = i then b' else u) xs = xs"
      by (simp add: map_idI)
    with True show ?thesis by simp
  next
    case False
    from Cons.prems have d: "distinct (map id_of xs)" by simp
    note IH = Cons.IH [OF d]
    show ?thesis
    proof (cases "findIndex (\<lambda>b. id_of b = i) xs = - 1")
      case True
      with False IH show ?thesis by (simp add: Let_def)
    next
      case nf: False
      with findIndex_bounds [of "\<lambda>b. id_of b = i" xs]
      have "nat (findIndex (\<lambda>b. id_of b = i) xs + 1) = Suc (nat (findIndex (\<lambda>b. id_of b = i) xs))"
        by arith
      moreover from nf findIndex_bounds [of "\<lambda>b. id_of b = i" xs]
      have "findIndex (\<lambda>b. id_of b = i) xs + 1 \<noteq> - 1" by arith
      ultimately show ?thesis using False nf IH by (simp add: Let_def)
    qed
  qed
qed

lemma overwritePositions_map:
  "distinct (map id_of updated) \<Longrightarrow>
   overwritePositions rest k updated = map (overwritten rest k) updated"
proof (induction rest arbitrary: k updated)
  case Nil
  then show ?case by (simp add: map_idI)
next
  case (Cons b rest)
  let ?g = "\<lambda>u. if id_of u = id_of b then b\<lparr>position := int k\<rparr> else u"
  have ids: "map id_of (map ?g updated) = map id_of updated"
    by (induction updated) auto
  have "overwritePositions (b # rest) k updated = overwritePositions rest (Suc k) (map ?g updated)"
    using overwrite_one [OF Cons.prems, of "id_of b" "b\<lparr>position := int k\<rparr>"]
    by (simp add: Let_def)
  also have "\<dots> = map (overwritten rest (Suc k)) (map ?g updated)"
    by (rule Cons.IH) (simp only: ids Cons.prems)
  also have "\<dots> = map (overwritten (b # rest) k) updated"
    by simp
  finally show ?case .
qed

lemma overwritten_other: "id_of u \<notin> id_of ` set rest \<Longrightarrow> overwritten rest k u = u"
  by (induction rest arbitrary: k) auto

lemma overwritten_nth:
  "distinct (map id_of rest) \<Longrightarrow> i < length rest \<Longrightarrow> id_of u = id_of (rest ! i) \<Longrightarrow>
   overwritten rest k u = (rest ! i)\<lparr>position := int (k + i)\<rparr>"
proof (induction rest arbitrary: k i u)
  case Nil
  then show ?case by simp
next
  case (Cons b rest)
  show ?case
  proof (cases i)
    case 0
    from Cons.prems(1) have "id_of (b\<lparr>position := int k\<rparr>) \<notin> id_of ` set rest" by simp
    then have "overwritten rest (Suc k) (b\<lparr>position := int k\<rparr>) = b\<lparr>position := int k\<rparr>"
      by (rule overwritten_other)
    with 0 Cons.prems(3) show ?thesis by simp
  next
    case (Suc j)
    with Cons.prems have j: "j < length rest" and u: "id_of u = id_of (rest ! j)" by simp_all
    from j have "rest ! j \<in> set rest" by simp
    moreover from Cons.prems(1) have "id_of b \<notin> id_of ` set rest" by simp
    ultimately have "id_of (rest ! j) \<noteq> id_of b" by (metis imageI)
    with u have "id_of u \<noteq> id_of b" by simp
    moreover from Cons.prems(1) have "distinct (map id_of rest)" by simp
    from Cons.IH [OF this j u, of "Suc k"]
    have "overwritten rest (Suc k) u = (rest ! j)\<lparr>position := int (Suc k + j)\<rparr>" .
    ultimately show ?thesis using Suc by simp
  qed
qed

lemma reconcile_full_list:
  assumes "distinct (map id_of prev)" and "mset newOrder = mset prev"
  shows "reconcile prev newOrder =
     map (\<lambda>k. (newOrder ! k)\<lparr>position := int k\<rparr>) [0..<length newOrder]"
proof -
  let ?f = "overwritten newOrder 0"
  let ?T = "map (\<lambda>k. (newOrder ! k)\<lparr>position := int k\<rparr>) [0..<length newOrder]"
  from assms(2) have "mset (map id_of newOrder) = mset (map id_of prev)" by simp
  with assms(1) have dn: "distinct (map id_of newOrder)"
    using mset_eq_imp_distinct_iff by blast
  have T: "map ?f newOrder = ?T"
    by (rule nth_equalityI) (simp_all add: overwritten_nth [OF dn])
  have ov: "overwritePositions newOrder 0 prev = map ?f prev"
    using assms(1) by (rule overwritePositions_map)
  have "mset (map ?f prev) = image_mset ?f (mset prev)" by simp
  also have "\<dots> = image_mset ?f (mset newOrder)" by (simp only: assms(2))
  also have "\<dots> = mset ?T" by (simp only: T [symmetric] mset_map)
  finally have m: "mset (map ?f prev) = mset ?T" .
  have pos: "map position ?T = map int [0..<length newOrder]"
    by (rule nth_equalityI) simp_all
  have st: "sorted (map position ?T)"
    unfolding pos by (simp add: sorted_map sorted_wrt_map)
  have "distinct (map position ?T)"
    unfolding pos by (simp add: distinct_map inj_on_def)
  then have "inj_on position (set ?T)" by (simp only: distinct_map)
  moreover from m have "set (map ?f prev) = set ?T" by (rule mset_eq_setD)
  ultimately have inj: "inj_on position (set (map ?f prev))" by simp
  from m inj st have "sort_key position (map ?f prev) = ?T"
    by (rule sort_key_inj_key_eq)
  with ov show ?thesis by (simp add: reconcile_def)
qed

subsection \<open>The handler\<close>

text \<open>The shape of a reorder on a non-empty view.\<close>

lemma handleDragEnd_reorders:
  assumes "filteredBookmarks st \<noteq> []" "Some (active event) \<noteq> over event"
  defines "oldIndex \<equiv> findIndex (\<lambda>item. id_of item = active event) (filteredBookmarks st)"
    and "newIndex \<equiv> findIndex (\<lambda>item. Some (id_of item) = over event) (filteredBookmarks st)"
  obtains newOrder where
    "arrayMove (filteredBookmarks st) oldIndex newIndex = Some newOrder"
    "mset newOrder = mset (filteredBookmarks st)"
    "length newOrder = length (filteredBookmarks st)"
    "arrayMove newOrder newIndex oldIndex = Some (filteredBookmarks st)"
    "handleDragEnd user reply st event =
       (case persistUpdates reply 0 (updatesOf user newOrder) of
          (issued, None) \<Rightarrow>
            Some (st\<lparr>filteredBookmarks := newOrder,
                     bookmarks := reconcile (bookmarks st) newOrder\<rparr>, issued)
        | (issued, Some error) \<Rightarrow>
            Some (st\<lparr>toasts := toasts st @
                       [\<lparr>toast_title = js ''Error updating order'', description = message error,
                         variant = Destructive\<rparr>]\<rparr>, issued))"
proof -
  have bo: "- 1 \<le> oldIndex" "oldIndex < int (length (filteredBookmarks st))"
    and bn: "- 1 \<le> newIndex" "newIndex < int (length (filteredBookmarks st))"
    using findIndex_bounds unfolding oldIndex_def newIndex_def by blast+
  from arrayMove_mset [OF assms(1) bo bn] obtain newOrder where
    n: "arrayMove (filteredBookmarks st) oldIndex newIndex = Some newOrder"
      "mset newOrder = mset (filteredBookmarks st)" "length newOrder = length (filteredBookmarks st)"
    by blast
  from arrayMove_revert [OF assms(1) bo bn n(1)]
  have r: "arrayMove newOrder newIndex oldIndex = Some (filteredBookmarks st)" .
  have "handleDragEnd user reply st event =
       (case persistUpdates reply 0 (updatesOf user newOrder) of
          (issued, None) \<Rightarrow>
            Some (st\<lparr>filteredBookmarks := newOrder,
                     bookmarks := reconcile (bookmarks st) newOrder\<rparr>, issued)
        | (issued, Some error) \<Rightarrow>
            Some (st\<lparr>toasts := toasts st @
                       [\<lparr>toast_title = js ''Error updating order'', description = message error,
                         variant = Destructive\<rparr>]\<rparr>, issued))"
    using assms(2) n(1) r
    unfolding handleDragEnd_def oldIndex_def [symmetric] newIndex_def [symmetric] Let_def
    by (simp split: prod.splits option.splits)
  with n r show thesis by (rule that)
qed

lemmas sample_defs =
  scenarioA_def gridOf_def item_def owner_def drag_def js_def

lemmas reorder_defs =
  handleDragEnd_def arrayMove_def spliceStart_def updatesOf_def reconcile_def Let_def

text \<open>
  C8: a gesture whose \<open>over\<close> is the dragged item itself changes nothing: the state,
  with the working list, the filtered view and every position, is returned as it was,
  and no persistence call is issued.
\<close>

theorem reorder_same_item_noop:
  "handleDragEnd user reply st \<lparr>active = i, over = Some i\<rparr> = Some (st, [])"
  by (simp add: handleDragEnd_def)

text \<open>
  C2, as stated, fails: dragging item 1 onto item 2 in Scenario A leaves item 3 at
  index 2, the position it already has, and the handler still issues an update for it.
\<close>

theorem reorder_unchanged_item_persisted:
  "position (item ''3'' 2) = 2 \<and>
   snd (the (handleDragEnd owner allSucceed scenarioA (drag ''1'' ''2''))) =
     [\<lparr>update_position = 0, update_eq_id = js ''2'', update_eq_user_id = owner\<rparr>,
      \<lparr>update_position = 1, update_eq_id = js ''1'', update_eq_user_id = owner\<rparr>,
      \<lparr>update_position = 2, update_eq_id = js ''3'', update_eq_user_id = owner\<rparr>]"
  by (simp add: sample_defs reorder_defs allSucceed_def upt_rec)

text \<open>
  C2, amended: on a non-empty view, a gesture whose \<open>over\<close> is not the dragged item
  computes the new order and prepares one update per item of the new order, whether or
  not its position changes: the item at index \<open>k\<close> gets position \<open>k\<close>, scoped by its id
  and by the owner. The calls issued are a prefix of these updates, in index order; a
  call is issued only after every earlier call has resolved; and when all calls resolve,
  all the updates are issued.
\<close>

theorem reorder_persists_every_item:
  assumes "filteredBookmarks st \<noteq> []" and "Some (active event) \<noteq> over event"
  shows "\<exists>newOrder st' calls.
     arrayMove (filteredBookmarks st)
       (findIndex (\<lambda>item. id_of item = active event) (filteredBookmarks st))
       (findIndex (\<lambda>item. Some (id_of item) = over event) (filteredBookmarks st)) = Some newOrder \<and>
     handleDragEnd user reply st event = Some (st', calls) \<and>
     prefix calls
       (map (\<lambda>k. \<lparr>update_position = int k, update_eq_id = id_of (newOrder ! k),
                  update_eq_user_id = user\<rparr>) [0..<length newOrder]) \<and>
     (\<forall>m. Suc m < length calls \<longrightarrow> (\<exists>r. reply m = Resolved r)) \<and>
     ((\<forall>m < length newOrder. \<exists>r. reply m = Resolved r) \<longrightarrow>
        calls = map (\<lambda>k. \<lparr>update_position = int k, update_eq_id = id_of (newOrder ! k),
                           update_eq_user_id = user\<rparr>) [0..<length newOrder])"
proof -
  from handleDragEnd_reorders [OF assms, of user reply] obtain newOrder where
    mv: "arrayMove (filteredBookmarks st)
       (findIndex (\<lambda>item. id_of item = active event) (filteredBookmarks st))
       (findIndex (\<lambda>item. Some (id_of item) = over event) (filteredBookmarks st)) = Some newOrder"
    and h: "handleDragEnd user reply st event =
       (case persistUpdates reply 0 (updatesOf user newOrder) of
          (issued, None) \<Rightarrow>
            Some (st\<lparr>filteredBookmarks := newOrder,
                     bookmarks := reconcile (bookmarks st) newOrder\<rparr>, issued)
        | (issued, Some error) \<Rightarrow>
            Some (st\<lparr>toasts := toasts st @
                       [\<lparr>toast_title = js ''Error updating order'', description = message error,
                         variant = Destructive\<rparr>]\<rparr>, issued))"
    by blast
  define calls where "calls = fst (persistUpdates reply 0 (updatesOf user newOrder))"
  from h obtain st' where st': "handleDragEnd user reply st event = Some (st', calls)"
    by (auto simp: calls_def split: prod.splits option.splits)
  have p: "prefix calls (updatesOf user newOrder)"
    unfolding calls_def by (rule persistUpdates_prefix)
  have s: "\<exists>r. reply m = Resolved r" if "Suc m < length calls" for m
    using persistUpdates_awaits [of m reply 0 "updatesOf user newOrder"] that
    by (simp add: calls_def)
  have a: "calls = updatesOf user newOrder"
    if "\<forall>m < length newOrder. \<exists>r. reply m = Resolved r"
  proof -
    have "persistUpdates reply 0 (updatesOf user newOrder) = (updatesOf user newOrder, None)"
      by (rule persistUpdates_all_resolved) (use that in \<open>simp add: updatesOf_def\<close>)
    then show ?thesis by (simp add: calls_def)
  qed
  from mv st' p s a show ?thesis
    unfolding updatesOf_nth [symmetric] by blast
qed

theorem reorder_persists_every_item_witness:
  "filteredBookmarks scenarioA \<noteq> [] \<and>
   Some (active (drag ''1'' ''2'')) \<noteq> over (drag ''1'' ''2'') \<and>
   allSucceed 0 = Resolved None \<and> allSucceed 1 = Resolved None \<and>
   allSucceed 2 = Resolved None \<and>
   length (snd (the (handleDragEnd owner allSucceed scenarioA (drag ''1'' ''2'')))) = 3"
  using reorder_persists_every_item [of scenarioA "drag ''1'' ''2''" owner allSucceed]
  by (simp add: sample_defs reorder_defs allSucceed_def upt_rec)

text \<open>
  C3: when the view is the whole working list, the ids are pairwise different and every
  update succeeds, a reorder leaves the working list in the new order with the positions
  0, 1, ..., N - 1 in that order, each once. The new order holds the same items, and with
  the moved item taken out it is the old order: the other items keep their relative
  order. In Scenario A, dragging item 1 onto item 3 gives the order 2, 3, 1 with the
  positions 0, 1, 2.
\<close>

theorem reorder_density:
  assumes "distinct (map id_of (bookmarks st))"
    and "filteredBookmarks st = bookmarks st"
    and "bookmarks st \<noteq> []"
    and "Some (active event) \<noteq> over event"
    and "\<forall>m < length (bookmarks st). reply m = Resolved None"
  shows "\<exists>newOrder st' calls moved.
     handleDragEnd user reply st event = Some (st', calls) \<and>
     arrayMove (bookmarks st)
       (findIndex (\<lambda>item. id_of item = active event) (bookmarks st))
       (findIndex (\<lambda>item. Some (id_of item) = over event) (bookmarks st)) = Some newOrder \<and>
     mset newOrder = mset (bookmarks st) \<and>
     moved \<in> set (bookmarks st) \<and>
     (active event \<in> id_of ` set (bookmarks st) \<longrightarrow> id_of moved = active event) \<and>
     remove1 moved newOrder = remove1 moved (bookmarks st) \<and>
     bookmarks st' = map (\<lambda>k. (newOrder ! k)\<lparr>position := int k\<rparr>) [0..<length newOrder] \<and>
     map position (bookmarks st') = map int [0..<length (bookmarks st)] \<and>
     length calls = length (bookmarks st)"
proof -
  let ?L = "bookmarks st"
  let ?old = "findIndex (\<lambda>item. id_of item = active event) ?L"
  let ?new = "findIndex (\<lambda>item. Some (id_of item) = over event) ?L"
  from assms(2,3) have ne: "filteredBookmarks st \<noteq> []" by simp
  from handleDragEnd_reorders [OF ne assms(4), of user reply] assms(2) obtain newOrder where
    mv: "arrayMove ?L ?old ?new = Some newOrder"
    and ms: "mset newOrder = mset ?L"
    and len: "length newOrder = length ?L"
    and h: "handleDragEnd user reply st event =
       (case persistUpdates reply 0 (updatesOf user newOrder) of
          (issued, None) \<Rightarrow>
            Some (st\<lparr>filteredBookmarks := newOrder,
                     bookmarks := reconcile (bookmarks st) newOrder\<rparr>, issued)
        | (issued, Some error) \<Rightarrow>
            Some (st\<lparr>toasts := toasts st @
                       [\<lparr>toast_title = js ''Error updating order'', description = message error,
                         variant = Destructive\<rparr>]\<rparr>, issued))"
    by auto
  have ok: "persistUpdates reply 0 (updatesOf user newOrder) = (updatesOf user newOrder, None)"
    by (rule persistUpdates_all_resolved) (use assms(5) len in \<open>simp add: updatesOf_def\<close>)
  define st' where
    "st' = st\<lparr>filteredBookmarks := newOrder, bookmarks := reconcile ?L newOrder\<rparr>"
  with h ok have res: "handleDragEnd user reply st event = Some (st', updatesOf user newOrder)"
    by simp
  have "bookmarks st' = reconcile ?L newOrder"
    by (simp add: st'_def)
  also have "\<dots> = map (\<lambda>k. (newOrder ! k)\<lparr>position := int k\<rparr>) [0..<length newOrder]"
    using assms(1) ms by (rule reconcile_full_list)
  finally have rec:
    "bookmarks st' = map (\<lambda>k. (newOrder ! k)\<lparr>position := int k\<rparr>) [0..<length newOrder]" .
  have pos: "map position (bookmarks st') = map int [0..<length ?L]"
    unfolding rec len [symmetric] by (rule nth_equalityI) simp_all
  have bo: "- 1 \<le> ?old" "?old < int (length ?L)" and bn: "- 1 \<le> ?new" "?new < int (length ?L)"
    using findIndex_bounds by blast+
  define a where "a = spliceStart (length ?L) ?old"
  have a: "a < length ?L"
    unfolding a_def using assms(3) bo by (intro spliceStart_less) simp_all
  from assms(1) have dL: "distinct ?L" by (rule distinct_map [THEN iffD1, THEN conjunct1])
  have keep: "remove1 (?L ! a) newOrder = remove1 (?L ! a) ?L"
    unfolding a_def using assms(3) bo bn mv dL by (rule arrayMove_others_keep_order)
  have tie: "id_of (?L ! a) = active event" if "active event \<in> id_of ` set ?L"
  proof -
    from that have "\<exists>x \<in> set ?L. id_of x = active event" by auto
    then have ge: "0 \<le> ?old" by (rule findIndex_some)
    with bo(2) have "a = nat ?old" by (simp add: a_def spliceStart_def)
    with findIndex_found [OF ge] show ?thesis by simp
  qed
  from a have mem: "?L ! a \<in> set ?L" by simp
  have lc: "length (updatesOf user newOrder) = length ?L"
    using len by (simp add: updatesOf_def)
  from res mv ms mem tie keep rec pos lc show ?thesis
    by blast
qed

theorem reorder_density_witness:
  "distinct (map id_of (bookmarks scenarioA)) \<and>
   filteredBookmarks scenarioA = bookmarks scenarioA \<and>
   bookmarks scenarioA \<noteq> [] \<and>
   Some (active (drag ''1'' ''3'')) \<noteq> over (drag ''1'' ''3'') \<and>
   length (bookmarks scenarioA) = 3 \<and>
   allSucceed 0 = Resolved None \<and> allSucceed 1 = Resolved None \<and>
   allSucceed 2 = Resolved None \<and>
   active (drag ''1'' ''3'') \<in> id_of ` set (bookmarks scenarioA) \<and>
   bookmarks (fst (the (handleDragEnd owner allSucceed scenarioA (drag ''1'' ''3'')))) =
     [item ''2'' 0, item ''3'' 1, item ''1'' 2]"
  using reorder_density [of scenarioA "drag ''1'' ''3''" allSucceed owner]
  by (simp add: sample_defs reorder_defs allSucceed_def)

text \<open>
  When a persistence call rejects, the handler does what C1 describes: the calls after
  it are not issued, one destructive notification is raised, and the state is otherwise
  the state before the gesture, so the filtered view is back in its exact former order.
\<close>

lemma reorder_rejected_reverts:
  assumes "filteredBookmarks st \<noteq> []" and "Some (active event) \<noteq> over event"
    and "m < length (filteredBookmarks st)" and "reply m = Rejected e"
    and "\<And>m'. m' < m \<Longrightarrow> \<exists>r. reply m' = Resolved r"
  shows "\<exists>calls. handleDragEnd user reply st event =
      Some (st\<lparr>toasts := toasts st @
                 [\<lparr>toast_title = js ''Error updating order'', description = message e,
                   variant = Destructive\<rparr>]\<rparr>, calls) \<and> length calls = Suc m"
proof -
  from handleDragEnd_reorders [OF assms(1,2), of user reply] obtain newOrder where
    len: "length newOrder = length (filteredBookmarks st)"
    and h: "handleDragEnd user reply st event =
       (case persistUpdates reply 0 (updatesOf user newOrder) of
          (issued, None) \<Rightarrow>
            Some (st\<lparr>filteredBookmarks := newOrder,
                     bookmarks := reconcile (bookmarks st) newOrder\<rparr>, issued)
        | (issued, Some error) \<Rightarrow>
            Some (st\<lparr>toasts := toasts st @
                       [\<lparr>toast_title = js ''Error updating order'', description = message error,
                         variant = Destructive\<rparr>]\<rparr>, issued))"
    by blast
  have lu: "length (updatesOf user newOrder) = length (filteredBookmarks st)"
    using len by (simp add: updatesOf_def)
  have "persistUpdates reply 0 (updatesOf user newOrder) =
      (take (Suc m) (updatesOf user newOrder), Some e)"
    by (rule persistUpdates_first_rejected) (use assms(3-5) lu in simp_all)
  with h lu assms(3) show ?thesis by simp
qed

lemma reorder_rejected_reverts_example:
  "handleDragEnd owner secondRejects scenarioA (drag ''1'' ''3'') =
     Some (scenarioA\<lparr>toasts :=
             [\<lparr>toast_title = js ''Error updating order'', description = js ''Failed to fetch'',
               variant = Destructive\<rparr>]\<rparr>,
           [\<lparr>update_position = 0, update_eq_id = js ''2'', update_eq_user_id = owner\<rparr>,
            \<lparr>update_position = 1, update_eq_id = js ''3'', update_eq_user_id = owner\<rparr>])"
  by (simp add: sample_defs reorder_defs secondRejects_def upt_rec)

text \<open>
  C1: a persistence call that fails the way the store reports failure, by resolving with
  an \<open>error\<close>, goes unnoticed, since the loop discards what each call resolves with. In
  Scenario A, with the second update resolving with an error, dragging item 1 onto
  item 3 raises no notification, leaves the filtered view reordered, issues the third
  update as well and renumbers the working list.
\<close>

theorem reorder_returned_error_unhandled:
  "handleDragEnd owner secondReturnsError scenarioA (drag ''1'' ''3'') =
     Some (scenarioA\<lparr>filteredBookmarks := [item ''2'' 1, item ''3'' 2, item ''1'' 0],
                     bookmarks := [item ''2'' 0, item ''3'' 1, item ''1'' 2]\<rparr>,
           [\<lparr>update_position = 0, update_eq_id = js ''2'', update_eq_user_id = owner\<rparr>,
            \<lparr>update_position = 1, update_eq_id = js ''3'', update_eq_user_id = owner\<rparr>,
            \<lparr>update_position = 2, update_eq_id = js ''1'', update_eq_user_id = owner\<rparr>])"
  by (simp add: sample_defs reorder_defs secondReturnsError_def upt_rec)

end
